theory Spec2Isabelle
  imports Main
begin

section \<open>Data model\<close>

text \<open>
  The entity declarations (\<^verbatim>\<open>event.entity.ts\<close>, \<^verbatim>\<open>user.entity.ts\<close>) are not among the
  source files; the shape of an event is taken from the fields that
  \<^verbatim>\<open>event.service.ts\<close> reads and writes and from section 3 of the specification.
\<close>

text \<open>
  Modelled from the spec: the status enumeration of the missing entity file
  (``one of a small enumerated set of lifecycle states (e.g. TODO, IN_PROGRESS, DONE)'').
\<close>

datatype event_status = TODO | IN_PROGRESS | DONE

text \<open>Modelled from the spec: the \<^verbatim>\<open>User\<close> entity, ``identifier + name''.\<close>

record user =
  user_id :: int
  name :: string

text \<open>
  A \<^verbatim>\<open>User\<close> object in memory: its reference and its fields. Two objects with different
  references may hold the same user.
\<close>

datatype user_obj = UserObj (obj_ref: nat) (obj_user: user)

text \<open>
  Modelled from the spec: the \<^verbatim>\<open>Event\<close> entity of the missing entity file. A \<^verbatim>\<open>Date\<close> is
  its \<^verbatim>\<open>getTime()\<close> value, the milliseconds since the epoch, which is what \<^verbatim>\<open><\<close> and
  \<^verbatim>\<open>></\<close> compare on two dates. The field \<^verbatim>\<open>id\<close> is named \<open>id_ev\<close> here.
\<close>

record event =
  id_ev :: int
  title :: string
  description :: "string option"
  startTime :: int
  endTime :: int
  status :: event_status
  invitees :: "user_obj list"

section \<open>The merge algorithm of \<^verbatim>\<open>event.service.ts\<close>\<close>

text \<open>\<^verbatim>\<open>isOverlapping(event1, event2)\<close>, lines 97--99.\<close>

definition isOverlapping :: "event \<Rightarrow> event \<Rightarrow> bool" where
  "isOverlapping event1 event2 \<longleftrightarrow>
     endTime event1 > startTime event2 \<and> startTime event1 < endTime event2"

text \<open>
  \<^verbatim>\<open>Array.from(new Set(xs))\<close> on an array of objects: the elements are inserted one after
  the other, an element is skipped when the set already holds the same object, and the
  set is read back in insertion order. A set compares objects by reference, not by their
  fields.
\<close>

definition same_object :: "user_obj \<Rightarrow> user_obj \<Rightarrow> bool" where
  "same_object a b \<longleftrightarrow> obj_ref a = obj_ref b"

definition array_from_set :: "user_obj list \<Rightarrow> user_obj list" where
  "array_from_set xs =
     foldl (\<lambda>acc x. if list_ex (same_object x) acc then acc else acc @ [x]) [] xs"

text \<open>\<^verbatim>\<open>x || ''\<close> on an optional string: the empty string stands in for an absent one.\<close>

definition or_empty :: "string option \<Rightarrow> string" where
  "or_empty d = (case d of None \<Rightarrow> [] | Some s \<Rightarrow> s)"

text \<open>
  \<^verbatim>\<open>mergeEvents(event1, event2)\<close>, lines 103--112. The source assigns the six fields of
  \<^verbatim>\<open>event1\<close> in place and returns \<^verbatim>\<open>event1\<close>; each assignment reads only the field it
  writes (and \<^verbatim>\<open>event2\<close>), so the six updates are independent. The field \<^verbatim>\<open>id\<close> is not
  assigned.
\<close>

definition mergeEvents :: "event \<Rightarrow> event \<Rightarrow> event" where
  "mergeEvents event1 event2 = event1
     \<lparr> startTime := min (startTime event1) (startTime event2),
       endTime := max (endTime event1) (endTime event2),
       title := title event1 @ '', '' @ title event2,
       description := Some (or_empty (description event1) @ '' '' @ or_empty (description event2)),
       status := IN_PROGRESS,
       invitees := array_from_set (invitees event1 @ invitees event2) \<rparr>"

text \<open>
  The body of the \<^verbatim>\<open>for\<close> loop, lines 71--82, on the pair
  \<open>(mergedEvents, currentMergedEvent)\<close>; \<open>None\<close> is \<^verbatim>\<open>null\<close>. Here the events are
  values: the step returns the new accumulator instead of updating an object.
\<close>

fun sweep_step :: "event list \<times> event option \<Rightarrow> event \<Rightarrow> event list \<times> event option" where
  "sweep_step (mergedEvents, Some currentMergedEvent) ev =
     (if isOverlapping currentMergedEvent ev
      then (mergedEvents, Some (mergeEvents currentMergedEvent ev))
      else (mergedEvents @ [currentMergedEvent], Some ev))"
| "sweep_step (mergedEvents, None) ev = (mergedEvents, Some ev)"

text \<open>Lines 84--87: the accumulator left after the loop is pushed.\<close>

fun push_last :: "event list \<times> event option \<Rightarrow> event list" where
  "push_last (mergedEvents, Some currentMergedEvent) = mergedEvents @ [currentMergedEvent]"
| "push_last (mergedEvents, None) = mergedEvents"

text \<open>Lines 67--87: the list \<^verbatim>\<open>mergedEvents\<close> computed from the fetched \<^verbatim>\<open>events\<close>.\<close>

definition mergeSweep :: "event list \<Rightarrow> event list" where
  "mergeSweep events = push_last (foldl sweep_step ([], None) events)"

subsection \<open>The loop on shared objects\<close>

text \<open>
  In the source the array \<^verbatim>\<open>events\<close>, the variable \<^verbatim>\<open>currentMergedEvent\<close> and the array
  \<^verbatim>\<open>mergedEvents\<close> hold references to the same objects, and \<^verbatim>\<open>mergeEvents\<close> updates its
  first argument in place. The objects are the list \<open>objs\<close>, the reference of the \<open>k\<close>-th
  fetched event is \<open>k\<close>, and the loop runs over the references \<open>0, \<dots>, n - 1\<close>: the body
  of the loop, the final push, and the loop as a whole, which returns the objects as the
  loop leaves them and the references pushed to \<^verbatim>\<open>mergedEvents\<close>.
\<close>

fun sweep_step_ref ::
  "event list \<times> nat list \<times> nat option \<Rightarrow> nat \<Rightarrow> event list \<times> nat list \<times> nat option" where
  "sweep_step_ref (objs, mergedEvents, Some cur) k =
     (if isOverlapping (objs ! cur) (objs ! k)
      then (objs[cur := mergeEvents (objs ! cur) (objs ! k)], mergedEvents, Some cur)
      else (objs, mergedEvents @ [cur], Some k))"
| "sweep_step_ref (objs, mergedEvents, None) k = (objs, mergedEvents, Some k)"

fun push_last_ref :: "event list \<times> nat list \<times> nat option \<Rightarrow> event list \<times> nat list" where
  "push_last_ref (objs, mergedEvents, Some cur) = (objs, mergedEvents @ [cur])"
| "push_last_ref (objs, mergedEvents, None) = (objs, mergedEvents)"

definition sweep_in_place :: "event list \<Rightarrow> event list \<times> nat list" where
  "sweep_in_place events =
     push_last_ref (foldl sweep_step_ref (events, [], None) [0 ..< length events])"

section \<open>The event store\<close>

text \<open>
  The repository objects are the ORM's, not this repository's code. The store is the
  database behind them: the table of events keyed by the primary key \<^verbatim>\<open>id\<close>, the junction
  table \<^verbatim>\<open>event_invitees_user\<close> of the many-to-many relation \<^verbatim>\<open>invitees\<close> (the table the
  tests of the service name), and the table of users. In a keyed table the first entry of
  a key is its row.
\<close>

record event_row =
  row_title :: string
  row_description :: "string option"
  row_startTime :: int
  row_endTime :: int
  row_status :: event_status

record store =
  event_table :: "(int \<times> event_row) list"
  event_invitees_user :: "(int \<times> int) list"
  user_table :: "(int \<times> string) list"

fun table_rows :: "(int \<times> 'v) list \<Rightarrow> (int \<times> 'v) list" where
  "table_rows [] = []"
| "table_rows (p # ps) = p # table_rows (filter (\<lambda>q. fst q \<noteq> fst p) ps)"

text \<open>An entity built from a row and the \<^verbatim>\<open>User\<close> objects loaded with it, and back.\<close>

definition hydrate :: "int \<Rightarrow> event_row \<Rightarrow> user_obj list \<Rightarrow> event" where
  "hydrate i r us =
     \<lparr> id_ev = i, title = row_title r, description = row_description r,
       startTime = row_startTime r, endTime = row_endTime r, status = row_status r,
       invitees = us \<rparr>"

definition columns_of :: "event \<Rightarrow> event_row" where
  "columns_of e =
     \<lparr> row_title = title e, row_description = description e, row_startTime = startTime e,
       row_endTime = endTime e, row_status = status e \<rparr>"

text \<open>The user with the given identifier is among the invitees of the event.\<close>

definition is_invited :: "store \<Rightarrow> int \<Rightarrow> int \<Rightarrow> bool" where
  "is_invited s userId i \<longleftrightarrow> (i, userId) \<in> set (event_invitees_user s)"

text \<open>
  Lines 60--65: the query of \<^verbatim>\<open>mergeAllOverlappingEvents\<close>. The condition
  \<^verbatim>\<open>user.id = :userId\<close> is on the joined alias, so of the joined rows of an event only the
  one of the requesting user passes: the events that invite the user are returned, ordered
  by start time (ties in table order), and each is loaded with that user as its only
  invitee. Every event gets a \<^verbatim>\<open>User\<close> object of its own; the object of the \<open>k\<close>-th
  returned event has the reference \<open>k\<close>.
\<close>

definition fetchEventsForUser :: "store \<Rightarrow> int \<Rightarrow> event list" where
  "fetchEventsForUser s userId =
     (case map_of (user_table s) userId of
        None \<Rightarrow> []
      | Some nm \<Rightarrow>
          map (\<lambda>(k, (i, r)). hydrate i r [UserObj k \<lparr> user_id = userId, name = nm \<rparr>])
            (enumerate 0
              (sort_key (\<lambda>(i, r). row_startTime r)
                (filter (\<lambda>(i, r). is_invited s userId i) (table_rows (event_table s))))))"

text \<open>
  The invitees of an event as the relation \<^verbatim>\<open>invitees\<close> loads them: the users that the
  junction table links to the event, one object each.
\<close>

definition load_invitees :: "store \<Rightarrow> int \<Rightarrow> user_obj list" where
  "load_invitees s i =
     map (\<lambda>(k, u). UserObj k u)
       (enumerate 0
         (List.map_filter
           (\<lambda>(e, uid). if e = i
              then map_option (\<lambda>nm. \<lparr> user_id = uid, name = nm \<rparr>) (map_of (user_table s) uid)
              else None)
           (event_invitees_user s)))"

text \<open>The lookup of a single event by its identifier, its invitees included.\<close>

definition lookup :: "store \<Rightarrow> int \<Rightarrow> event option" where
  "lookup s i = map_option (\<lambda>r. hydrate i r (load_invitees s i)) (map_of (event_table s) i)"

text \<open>
  The bulk save, one entity after the other. The columns of the entity replace the row of
  its identifier where it stands, or are appended as a new row. The relation is brought in
  line with the entity: the junction rows of the event whose user the entity does not
  list are removed, and the users it lists are linked once.
\<close>

fun upsert :: "int \<Rightarrow> 'v \<Rightarrow> (int \<times> 'v) list \<Rightarrow> (int \<times> 'v) list" where
  "upsert k v [] = [(k, v)]"
| "upsert k v (p # ps) = (if fst p = k then (k, v) # ps else p # upsert k v ps)"

definition sync_invitees :: "int \<Rightarrow> int list \<Rightarrow> (int \<times> int) list \<Rightarrow> (int \<times> int) list" where
  "sync_invitees i uids js =
     filter (\<lambda>(e, u). if e = i then u \<in> set uids else True) js @
     map (Pair i) (filter (\<lambda>u. (i, u) \<notin> set js) (remdups uids))"

definition save_one :: "event \<Rightarrow> store \<Rightarrow> store" where
  "save_one e s = s
     \<lparr> event_table := upsert (id_ev e) (columns_of e) (event_table s),
       event_invitees_user :=
         sync_invitees (id_ev e) (map (\<lambda>u. user_id (obj_user u)) (invitees e))
           (event_invitees_user s) \<rparr>"

definition saveAll :: "event list \<Rightarrow> store \<Rightarrow> store" where
  "saveAll evs s = foldl (\<lambda>s e. save_one e s) s evs"

text \<open>
  The errors the operations end in: the not-found exception of the service with its
  message, and the errors of the repository, which the \<^verbatim>\<open>await\<close>s of the service pass on.
\<close>

datatype error =
  NotFoundException "string option"
| EmptyCriteria
| UpdateValuesMissingError
| QueryFailedError
| TypeORMError

text \<open>
  The delete by identifiers. The repository rejects an empty list of criteria. Otherwise
  the rows of the listed identifiers go, with their junction rows; an identifier that no
  row carries is passed over.
\<close>

definition deleteByIds :: "int list \<Rightarrow> store \<Rightarrow> error + store" where
  "deleteByIds ids s =
     (if ids = [] then Inl EmptyCriteria
      else Inr (s \<lparr> event_table := filter (\<lambda>(i, r). i \<notin> set ids) (event_table s),
                    event_invitees_user :=
                      filter (\<lambda>(e, u). e \<notin> set ids) (event_invitees_user s) \<rparr>))"

section \<open>Persisting the merge\<close>

text \<open>Lines 116--120 of \<^verbatim>\<open>removeOriginalEvents\<close>: the identifiers handed to the delete.\<close>

definition eventsToDelete :: "event list \<Rightarrow> event list \<Rightarrow> int list" where
  "eventsToDelete originalEvents mergedEvents =
     (let originalEventIds = map id_ev originalEvents;
          mergedEventIds = map id_ev mergedEvents
      in filter (\<lambda>i. i \<notin> set mergedEventIds) originalEventIds)"

text \<open>\<^verbatim>\<open>removeOriginalEvents\<close>, lines 115--122: the delete is called whatever the list holds.\<close>

definition removeOriginalEvents :: "event list \<Rightarrow> event list \<Rightarrow> store \<Rightarrow> error + store" where
  "removeOriginalEvents originalEvents mergedEvents s =
     deleteByIds (eventsToDelete originalEvents mergedEvents) s"

text \<open>
  \<^verbatim>\<open>mergeAllOverlappingEvents(userId)\<close>, lines 58--94: what the call ends in, the returned
  list or the error it raises, and the store it leaves. The loop runs on the fetched
  objects; \<open>mergedEvents\<close> is read through its references after the loop, and
  \<^verbatim>\<open>removeOriginalEvents\<close> receives the array \<^verbatim>\<open>events\<close> with the objects as the loop left
  them. The save comes first: when the delete raises, the store keeps what was saved.
\<close>

definition mergeAllOverlappingEvents :: "store \<Rightarrow> int \<Rightarrow> (error + event list) \<times> store" where
  "mergeAllOverlappingEvents s userId =
     (let (events, mergedRefs) = sweep_in_place (fetchEventsForUser s userId);
          mergedEvents = map (nth events) mergedRefs;
          s1 = saveAll mergedEvents s
      in case removeOriginalEvents events mergedEvents s1 of
           Inl err \<Rightarrow> (Inl err, s1)
         | Inr s2 \<Rightarrow> (Inr mergedEvents, s2))"

section \<open>Single-event operations\<close>

text \<open>The decimal numeral of an integer.\<close>

fun show_nat :: "nat \<Rightarrow> string" where
  "show_nat n =
     (if n < 10 then [''0123456789'' ! n]
      else show_nat (n div 10) @ [''0123456789'' ! (n mod 10)])"

declare show_nat.simps [simp del]

definition show_int :: "int \<Rightarrow> string" where
  "show_int i = (if i < 0 then ''-'' @ show_nat (nat (- i)) else show_nat (nat i))"

text \<open>
  The text of a number inside a template literal, for a number that holds an integer. Up
  to \<^verbatim>\<open>Number.MAX_SAFE_INTEGER\<close>, which is \<open>9007199254740991\<close>, in magnitude it is the
  decimal numeral of the integer. Beyond that a number holds a rounded value and the
  literal shows its shortest digits, in exponent notation from 21 digits on; that text
  is not modelled (\<open>None\<close>).
\<close>

definition template_number :: "int \<Rightarrow> string option" where
  "template_number i = (if \<bar>i\<bar> \<le> 9007199254740991 then Some (show_int i) else None)"

definition not_found_message :: "int \<Rightarrow> string option" where
  "not_found_message i =
     map_option (\<lambda>t. ''Event with ID '' @ t @ '' not found'') (template_number i)"

text \<open>\<^verbatim>\<open>findOne(id)\<close>, lines 25--34.\<close>

definition findOne :: "store \<Rightarrow> int \<Rightarrow> error + event" where
  "findOne s i =
     (case lookup s i of
        None \<Rightarrow> Inl (NotFoundException (not_found_message i))
      | Some e \<Rightarrow> Inr e)"







text \<open>The value of a decimal numeral, to read back what \<open>show_int\<close> writes.\<close>

definition digit_value :: "char \<Rightarrow> nat" where
  "digit_value c = of_char c - 48"

definition decimal_value :: "string \<Rightarrow> nat" where
  "decimal_value ds = foldl (\<lambda>a c. 10 * a + digit_value c) 0 ds"

definition read_int :: "string \<Rightarrow> int" where
  "read_int t =
     (case t of
        [] \<Rightarrow> 0
      | c # ds \<Rightarrow> if c = CHR ''-'' then - int (decimal_value ds) else int (decimal_value t))"

section \<open>Clusters\<close>


text \<open>
  The runs the sweep forms: an event joins the current run when it overlaps the span of
  the run, from the earliest start to the latest end of the events already in it.
\<close>

definition span_start :: "event list \<Rightarrow> int" where
  "span_start r = Min (set (map startTime r))"

definition span_end :: "event list \<Rightarrow> int" where
  "span_end r = Max (set (map endTime r))"

definition joins :: "event list \<Rightarrow> event \<Rightarrow> bool" where
  "joins r e \<longleftrightarrow> span_end r > startTime e \<and> span_start r < endTime e"

fun span_runs_from :: "event list \<Rightarrow> event list \<Rightarrow> event list list" where
  "span_runs_from r [] = [r]"
| "span_runs_from r (e # es) =
     (if joins r e then span_runs_from (r @ [e]) es else r # span_runs_from [e] es)"




section \<open>The sweep as a recursion\<close>

text \<open>
  The sweep from a given accumulator, as a recursion on the events still to come: the list
  that the loop pushes from here on, the last accumulator included.
\<close>

fun run_from :: "event \<Rightarrow> event list \<Rightarrow> event list" where
  "run_from c [] = [c]"
| "run_from c (e # es) =
     (if isOverlapping c e then run_from (mergeEvents c e) es else c # run_from e es)"

section \<open>Example data\<close>

text \<open>Example events: a clock time of 1 January 2024 (UTC) in milliseconds since the epoch.\<close>

definition at_time :: "int \<Rightarrow> int \<Rightarrow> int" where
  "at_time h m = 1704067200000 + (h * 60 + m) * 60000"

definition mk_event :: "int \<Rightarrow> string \<Rightarrow> int \<Rightarrow> int \<Rightarrow> user_obj list \<Rightarrow> event" where
  "mk_event i t s e us =
     \<lparr> id_ev = i, title = t, description = None, startTime = s, endTime = e,
       status = TODO, invitees = us \<rparr>"

definition mk_row :: "string \<Rightarrow> int \<Rightarrow> int \<Rightarrow> event_row" where
  "mk_row t s e =
     \<lparr> row_title = t, row_description = None, row_startTime = s, row_endTime = e,
       row_status = TODO \<rparr>"

definition mk_user :: "nat \<Rightarrow> int \<Rightarrow> string \<Rightarrow> user_obj" where
  "mk_user k i n = UserObj k \<lparr> user_id = i, name = n \<rparr>"

text \<open>
  An example store. Ann (user 1) is invited to A, B and C; Bob (user 2) to A, B, C and D;
  Cy (user 3) to D and E; Dee (user 4) to nothing; F has no invitee. The rows are not in
  start-time order.
\<close>

definition demo_store :: store where
  "demo_store =
     \<lparr> event_table =
         [(4, mk_row ''D'' (at_time 13 0) (at_time 14 0)),
          (3, mk_row ''C'' (at_time 10 15) (at_time 11 0)),
          (1, mk_row ''A'' (at_time 9 0) (at_time 10 0)),
          (2, mk_row ''B'' (at_time 9 30) (at_time 10 30)),
          (5, mk_row ''E'' (at_time 9 0) (at_time 10 0)),
          (6, mk_row ''F'' (at_time 15 0) (at_time 16 0))],
       event_invitees_user =
         [(1, 1), (1, 2), (2, 1), (2, 2), (3, 2), (3, 1), (4, 2), (4, 3), (5, 3)],
       user_table = [(1, ''Ann''), (2, ''Bob''), (3, ''Cy''), (4, ''Dee'')] \<rparr>"

text \<open>
  The example of claim C4 with a fourth event: M 10:00--11:00, Z 10:00--10:00,
  F 10:30--12:00 and G 11:00--12:30, all of user 1.
\<close>

definition overlap_store :: store where
  "overlap_store =
     \<lparr> event_table =
         [(1, mk_row ''M'' (at_time 10 0) (at_time 11 0)),
          (2, mk_row ''Z'' (at_time 10 0) (at_time 10 0)),
          (3, mk_row ''F'' (at_time 10 30) (at_time 12 0)),
          (4, mk_row ''G'' (at_time 11 0) (at_time 12 30))],
       event_invitees_user = [(1, 1), (2, 1), (3, 1), (4, 1)],
       user_table = [(1, ''Ann'')] \<rparr>"

section \<open>Basic facts\<close>

lemma mergeEvents_simps:
  "startTime (mergeEvents a b) = min (startTime a) (startTime b)"
  "endTime (mergeEvents a b) = max (endTime a) (endTime b)"
  "title (mergeEvents a b) = title a @ '', '' @ title b"
  "description (mergeEvents a b) = Some (or_empty (description a) @ '' '' @ or_empty (description b))"
  "status (mergeEvents a b) = IN_PROGRESS"
  "invitees (mergeEvents a b) = array_from_set (invitees a @ invitees b)"
  "id_ev (mergeEvents a b) = id_ev a"
  by (simp_all add: mergeEvents_def)

lemma mergeSweep_Nil: "mergeSweep [] = []"
  by (simp add: mergeSweep_def)

section \<open>The sweep and its runs\<close>

text \<open>
  The loop, started with an accumulator, pushes what \<open>run_from\<close> lists; and \<open>run_from\<close>
  yields one combined event for each run of \<open>span_runs\<close>.
\<close>

lemma sweep_run_from:
  "push_last (foldl sweep_step (m, Some c) es) = m @ run_from c es"
  by (induction es arbitrary: m c) simp_all

lemma mergeSweep_Cons: "mergeSweep (e # es) = run_from e es"
  by (simp add: mergeSweep_def sweep_run_from)

















lemma span_runs_from_ne: "span_runs_from r es \<noteq> []"
  by (induction es arbitrary: r) simp_all








subsection \<open>The loop on shared objects computes the sweep on values\<close>

text \<open>
  An object is updated only while it is the accumulator, and it is pushed when it stops
  being one; so the objects read through \<^verbatim>\<open>mergedEvents\<close> after the loop are the values of
  \<open>mergeSweep\<close>, and no object changes its identifier.
\<close>

lemma sweep_ref_from:
  assumes "c < k" and "k \<le> length h" and "\<forall>r \<in> set m. r < k \<and> r \<noteq> c"
    and "push_last_ref (foldl sweep_step_ref (h, m, Some c) [k ..< length h]) = (h', refs)"
  shows "map (nth h') refs = map (nth h) m @ run_from (h ! c) (drop k h) \<and>
         map id_ev h' = map id_ev h"
  using assms
proof (induction "length h - k" arbitrary: h m c k)
  case 0
  then have "k = length h" by simp
  with 0 show ?case by auto
next
  case (Suc d)
  then have k: "k < length h" by simp
  then have upt: "[k ..< length h] = k # [Suc k ..< length h]"
    by (simp add: upt_conv_Cons)
  from k have dr: "drop k h = h ! k # drop (Suc k) h"
    by (simp add: Cons_nth_drop_Suc)
  show ?case
  proof (cases "isOverlapping (h ! c) (h ! k)")
    case True
    let ?h1 = "h[c := mergeEvents (h ! c) (h ! k)]"
    from Suc.prems k have c: "c < length h" by simp
    have len: "length ?h1 = length h" by simp
    from Suc.prems(4) True
    have run: "push_last_ref (foldl sweep_step_ref (?h1, m, Some c) [Suc k ..< length ?h1]) = (h', refs)"
      by (simp add: upt)
    have d: "d = length ?h1 - Suc k" using Suc.hyps(2) by simp
    have c': "c < Suc k" using Suc.prems(1) by simp
    have k': "Suc k \<le> length ?h1" using k by simp
    have m': "\<forall>r \<in> set m. r < Suc k \<and> r \<noteq> c" using Suc.prems(3) by auto
    from Suc.hyps(1) [OF d c' k' m' run]
    have ih: "map (nth h') refs = map (nth ?h1) m @ run_from (?h1 ! c) (drop (Suc k) ?h1)"
      and ids: "map id_ev h' = map id_ev ?h1"
      by simp_all
    from Suc.prems(3) have same: "map (nth ?h1) m = map (nth h) m"
      by (auto simp: nth_list_update)
    from c have at: "?h1 ! c = mergeEvents (h ! c) (h ! k)" by simp
    from Suc.prems(1) have rest: "drop (Suc k) ?h1 = drop (Suc k) h"
      by simp
    have "map id_ev ?h1 = (map id_ev h)[c := id_ev (h ! c)]"
      by (simp add: map_update mergeEvents_simps)
    also from c have "\<dots> = map id_ev h"
      by (metis list_update_id nth_map)
    finally have ids1: "map id_ev ?h1 = map id_ev h" .
    from ih ids True show ?thesis
      by (simp add: same at rest dr ids1)
  next
    case False
    from Suc.prems(4) False
    have run: "push_last_ref (foldl sweep_step_ref (h, m @ [c], Some k) [Suc k ..< length h]) = (h', refs)"
      by (simp add: upt)
    have d: "d = length h - Suc k" using Suc.hyps(2) by simp
    have k': "Suc k \<le> length h" using k by simp
    have m': "\<forall>r \<in> set (m @ [c]). r < Suc k \<and> r \<noteq> k" using Suc.prems(1,3) by auto
    from Suc.hyps(1) [OF d lessI k' m' run] False show ?thesis
      by (simp add: dr)
  qed
qed

lemma sweep_in_place_values:
  assumes "sweep_in_place evs = (h, refs)"
  shows "map (nth h) refs = mergeSweep evs \<and> map id_ev h = map id_ev evs"
proof (cases evs)
  case Nil
  with assms show ?thesis
    by (auto simp: sweep_in_place_def mergeSweep_Nil)
next
  case (Cons e es)
  then have "0 < length evs" by simp
  then have upt: "[0 ..< length evs] = 0 # [Suc 0 ..< length evs]"
    by (rule upt_conv_Cons)
  from assms have "push_last_ref (foldl sweep_step_ref (evs, [], Some 0) [Suc 0 ..< length evs]) = (h, refs)"
    by (simp add: sweep_in_place_def upt)
  from sweep_ref_from [OF _ _ _ this] Cons show ?thesis
    by (simp add: mergeSweep_Cons)
qed

subsection \<open>Order and separation of the emitted events\<close>



lemma separated_not_overlapping:
  "endTime x \<le> startTime y \<Longrightarrow> \<not> isOverlapping x y \<and> \<not> isOverlapping y x"
  by (auto simp: isOverlapping_def)

lemma run_from_separated:
  assumes "sorted (map startTime (c # es))"
    and "startTime c < endTime c"
    and "\<forall>e \<in> set es. startTime e < endTime e"
  shows "sorted_wrt (\<lambda>x y. endTime x \<le> startTime y) (run_from c es) \<and>
         (\<forall>x \<in> set (run_from c es). startTime c \<le> startTime x)"
  using assms
proof (induction es arbitrary: c)
  case Nil
  then show ?case by simp
next
  case (Cons e es)
  from Cons.prems have ce: "startTime c \<le> startTime e"
    and rest: "sorted (map startTime (e # es))"
    and pos: "startTime e < endTime e" "\<forall>x \<in> set es. startTime x < endTime x"
    by simp_all
  show ?case
  proof (cases "isOverlapping c e")
    case True
    from ce have st: "startTime (mergeEvents c e) = startTime c"
      by (simp add: mergeEvents_simps)
    from Cons.prems have srt: "sorted (map startTime (mergeEvents c e # es))"
      by (simp add: st)
    from Cons.prems(2) have len: "startTime (mergeEvents c e) < endTime (mergeEvents c e)"
      by (simp add: mergeEvents_simps)
    from Cons.IH [OF srt len pos(2)] True show ?thesis
      by (simp add: st)
  next
    case False
    with ce pos(1) have apart: "endTime c \<le> startTime e"
      by (simp add: isOverlapping_def)
    from Cons.IH [OF rest pos] have ih:
      "sorted_wrt (\<lambda>x y. endTime x \<le> startTime y) (run_from e es)"
      "\<forall>x \<in> set (run_from e es). startTime e \<le> startTime x"
      by simp_all
    from ih apart ce False show ?thesis
      by auto
  qed
qed


section \<open>The store operations\<close>

lemma set_table_rows: "set (table_rows t) \<subseteq> set t"
  by (induction t rule: table_rows.induct) auto

lemma distinct_table_rows: "distinct (map fst (table_rows t))"
proof (induction t rule: table_rows.induct)
  case 1
  then show ?case by simp
next
  case (2 p ps)
  have "fst p \<notin> fst ` set (table_rows (filter (\<lambda>q. fst q \<noteq> fst p) ps))"
    using set_table_rows [of "filter (\<lambda>q. fst q \<noteq> fst p) ps"] by auto
  with 2 show ?case by simp
qed

lemma ids_hydrated:
  "map (id_ev \<circ> (\<lambda>(k, (i, r)). hydrate i r (us k))) (enumerate n xs) = map fst xs"
  by (induction xs arbitrary: n) (auto simp: hydrate_def)

lemma ids_fetch:
  "map id_ev (fetchEventsForUser s userId) =
     (case map_of (user_table s) userId of
        None \<Rightarrow> []
      | Some nm \<Rightarrow>
          map fst (sort_key (\<lambda>(i, r). row_startTime r)
            (filter (\<lambda>(i, r). is_invited s userId i) (table_rows (event_table s)))))"
  by (simp add: fetchEventsForUser_def ids_hydrated split: option.splits)

lemma distinct_ids_fetch: "distinct (map id_ev (fetchEventsForUser s userId))"
proof (cases "map_of (user_table s) userId")
  case None
  then show ?thesis by (simp add: ids_fetch)
next
  case (Some nm)
  let ?rows = "filter (\<lambda>(i, r). is_invited s userId i) (table_rows (event_table s))"
  have "distinct (map fst ?rows)"
    by (rule distinct_map_filter) (rule distinct_table_rows)
  then have "distinct (map fst (sort_key (\<lambda>(i, r). row_startTime r) ?rows))"
    by (simp add: distinct_map)
  with Some show ?thesis by (simp add: ids_fetch)
qed

lemma fetched_invited:
  assumes "e \<in> set (fetchEventsForUser s userId)"
  shows "is_invited s userId (id_ev e)"
proof -
  from assms have "id_ev e \<in> set (map id_ev (fetchEventsForUser s userId))"
    by simp
  then show ?thesis
    by (auto simp: ids_fetch split: option.splits)
qed

lemma fetched_invitees:
  assumes "e \<in> set (fetchEventsForUser s userId)"
  shows "map (\<lambda>u. user_id (obj_user u)) (invitees e) = [userId]"
  using assms
  by (auto simp: fetchEventsForUser_def hydrate_def split: option.splits)

lemma saveAll_Nil: "saveAll [] s = s"
  by (simp add: saveAll_def)

lemma eventsToDelete_ids:
  "map id_ev originalEvents = map id_ev evs \<Longrightarrow>
   eventsToDelete originalEvents mergedEvents = eventsToDelete evs mergedEvents"
  by (simp add: eventsToDelete_def)

text \<open>
  The call in terms of the sweep on values: the loop on the shared objects returns the
  values of \<open>mergeSweep\<close> and leaves every identifier as it was.
\<close>

lemma mergeAll_unfold:
  "mergeAllOverlappingEvents s userId =
     (case deleteByIds
             (eventsToDelete (fetchEventsForUser s userId) (mergeSweep (fetchEventsForUser s userId)))
             (saveAll (mergeSweep (fetchEventsForUser s userId)) s) of
        Inl err \<Rightarrow> (Inl err, saveAll (mergeSweep (fetchEventsForUser s userId)) s)
      | Inr s2 \<Rightarrow> (Inr (mergeSweep (fetchEventsForUser s userId)), s2))"
proof -
  obtain objs refs where run: "sweep_in_place (fetchEventsForUser s userId) = (objs, refs)"
    by (cases "sweep_in_place (fetchEventsForUser s userId)")
  from sweep_in_place_values [OF run]
  have vals: "map (nth objs) refs = mergeSweep (fetchEventsForUser s userId)"
    and ids: "map id_ev objs = map id_ev (fetchEventsForUser s userId)"
    by simp_all
  from eventsToDelete_ids [OF ids] show ?thesis
    by (simp add: mergeAllOverlappingEvents_def removeOriginalEvents_def run vals Let_def
        split: sum.splits)
qed

lemma merge_without_events:
  assumes "fetchEventsForUser s userId = []"
  shows "mergeAllOverlappingEvents s userId = (Inl EmptyCriteria, s)"
  using assms
  by (simp add: mergeAll_unfold mergeSweep_Nil saveAll_Nil eventsToDelete_def deleteByIds_def)

section \<open>Decimal numerals\<close>

lemma digit_value_nth: "k < 10 \<Longrightarrow> digit_value (''0123456789'' ! k) = k"
proof -
  assume "k < 10"
  then have "k \<in> set [0 ..< 10]" by simp
  moreover have "list_all (\<lambda>k. digit_value (''0123456789'' ! k) = k) [0 ..< 10]"
    by code_simp
  ultimately show ?thesis
    unfolding list_all_iff by blast
qed

lemma digit_not_minus: "k < 10 \<Longrightarrow> ''0123456789'' ! k \<noteq> CHR ''-''"
proof -
  assume "k < 10"
  then have "k \<in> set [0 ..< 10]" by simp
  moreover have "list_all (\<lambda>k. ''0123456789'' ! k \<noteq> CHR ''-'') [0 ..< 10]"
    by code_simp
  ultimately show ?thesis
    unfolding list_all_iff by blast
qed

lemma decimal_value_snoc: "decimal_value (ds @ [c]) = 10 * decimal_value ds + digit_value c"
  by (simp add: decimal_value_def)

lemma decimal_value_show_nat: "decimal_value (show_nat n) = n"
proof (induction n rule: show_nat.induct)
  case (1 n)
  show ?case
  proof (cases "n < 10")
    case True
    then show ?thesis
      by (simp add: show_nat.simps [of n] decimal_value_def digit_value_nth)
  next
    case False
    with 1 show ?thesis
      by (simp add: show_nat.simps [of n] decimal_value_snoc digit_value_nth)
  qed
qed

lemma show_nat_first: "\<exists>c ds. show_nat n = c # ds \<and> c \<noteq> CHR ''-''"
proof (induction n rule: show_nat.induct)
  case (1 n)
  show ?case
  proof (cases "n < 10")
    case True
    then show ?thesis
      by (simp add: show_nat.simps [of n] digit_not_minus)
  next
    case False
    with 1 obtain c ds where "show_nat (n div 10) = c # ds" "c \<noteq> CHR ''-''"
      by blast
    with False show ?thesis
      by (simp add: show_nat.simps [of n])
  qed
qed

lemma read_show_int: "read_int (show_int i) = i"
proof (cases "i < 0")
  case True
  then show ?thesis
    by (simp add: read_int_def show_int_def decimal_value_show_nat)
next
  case False
  obtain c ds where "show_nat (nat i) = c # ds" "c \<noteq> CHR ''-''"
    using show_nat_first by blast
  with False decimal_value_show_nat [of "nat i"] show ?thesis
    by (simp add: read_int_def show_int_def)
qed

lemma show_int_inject: "show_int i = show_int j \<Longrightarrow> i = j"
  by (metis read_show_int)

lemma not_found_message_inject:
  assumes "\<bar>i\<bar> \<le> 9007199254740991" and "\<bar>j\<bar> \<le> 9007199254740991"
    and "not_found_message j = not_found_message i"
  shows "j = i"
  using assms by (simp add: not_found_message_def template_number_def show_int_inject)

section \<open>The update of a row\<close>





lemma lookup_None: "lookup s i = None \<longleftrightarrow> i \<notin> fst ` set (event_table s)"
  by (simp add: lookup_def map_of_eq_None_iff)

lemma lookup_Some:
  "lookup s i = Some e \<Longrightarrow> id_ev e = i \<and> invitees e = load_invitees s i \<and> i \<in> fst ` set (event_table s)"
  by (auto simp: lookup_def hydrate_def dest: map_of_SomeD intro: rev_image_eqI)


section \<open>The claims\<close>

text \<open>
  Claim C1. Whenever the loop folds an event \<open>B\<close> into the accumulator \<open>A\<close> (the
  accumulator exists and overlaps \<open>B\<close>), the emitted references are unchanged, the
  accumulator stays the same object, and that object becomes \<open>mergeEvents A B\<close>; read by
  value, the step of the sweep yields the same accumulator. Its start is the earlier of the
  two starts, its end the later of the two ends, its title is \<open>A\<close>'s title, a comma and a
  space, then \<open>B\<close>'s title (so that folding a third event \<open>C\<close> gives the three titles in
  accumulation order), its description is the two descriptions, an absent one read as
  empty, joined by one space, its status is \<open>IN_PROGRESS\<close> whatever the two statuses were,
  and its identifier is \<open>A\<close>'s.
\<close>

theorem fold_into_accumulator:
  assumes "isOverlapping A B"
    and "cur < length objs" and "objs ! cur = A" and "objs ! k = B"
    and "sweep_step_ref (objs, mergedRefs, Some cur) k = (objs', mergedRefs', cur')"
  shows "mergedRefs' = mergedRefs \<and> cur' = Some cur \<and> objs' ! cur = mergeEvents A B \<and>
    sweep_step (mergedEvents, Some A) B = (mergedEvents, Some (mergeEvents A B)) \<and>
    startTime (mergeEvents A B) = min (startTime A) (startTime B) \<and>
    endTime (mergeEvents A B) = max (endTime A) (endTime B) \<and>
    title (mergeEvents A B) = title A @ '', '' @ title B \<and>
    title (mergeEvents (mergeEvents A B) C) = title A @ '', '' @ title B @ '', '' @ title C \<and>
    description (mergeEvents A B) =
      Some ((case description A of None \<Rightarrow> '''' | Some d \<Rightarrow> d) @ '' '' @
            (case description B of None \<Rightarrow> '''' | Some d \<Rightarrow> d)) \<and>
    status (mergeEvents A B) = IN_PROGRESS \<and>
    id_ev (mergeEvents A B) = id_ev A"
  using assms by (auto simp: mergeEvents_simps or_empty_def)

text \<open>The fold of scenario A: 10:00--11:00 and 10:30--11:30.\<close>

theorem fold_into_accumulator_witness:
  "isOverlapping (mk_event 1 ''Meeting 1'' (at_time 10 0) (at_time 11 0) [])
                 (mk_event 2 ''Meeting 2'' (at_time 10 30) (at_time 11 30) []) \<and>
   sweep_step_ref
     ([mk_event 1 ''Meeting 1'' (at_time 10 0) (at_time 11 0) [],
       mk_event 2 ''Meeting 2'' (at_time 10 30) (at_time 11 30) []], [], Some 0) 1 =
     ([\<lparr> id_ev = 1, title = ''Meeting 1, Meeting 2'', description = Some '' '',
         startTime = at_time 10 0, endTime = at_time 11 30, status = IN_PROGRESS,
         invitees = [] \<rparr>,
       mk_event 2 ''Meeting 2'' (at_time 10 30) (at_time 11 30) []], [], Some 0)"
proof -
  let ?A = "mk_event 1 ''Meeting 1'' (at_time 10 0) (at_time 11 0) []"
  let ?B = "mk_event 2 ''Meeting 2'' (at_time 10 30) (at_time 11 30) []"
  have ov: "isOverlapping ?A ?B"
    by (simp add: isOverlapping_def mk_event_def at_time_def)
  obtain h m c where st: "sweep_step_ref ([?A, ?B], [], Some 0) 1 = (h, m, c)"
    by (cases "sweep_step_ref ([?A, ?B], [], Some 0) 1")
  have "m = []" "c = Some 0" "h ! 0 = mergeEvents ?A ?B"
    using fold_into_accumulator [where C = ?A and mergedEvents = "[]", OF ov _ _ _ st]
    by simp_all
  moreover from st ov have "h = [mergeEvents ?A ?B, ?B]"
    by simp
  ultimately show ?thesis using st ov
    by (simp add: mergeEvents_def mk_event_def at_time_def array_from_set_def or_empty_def)
qed






text \<open>
  Claim C4 fails on a list that holds an event of no duration. With M 10:00--11:00,
  Z 10:00--10:00 and F 10:30--12:00, fetched in this order (M and Z start together), Z
  overlaps neither M nor F, so the sweep emits M, then Z, then F, all unchanged; M and F
  overlap. With G 11:00--12:30 as a fourth event of the user the whole call returns: G is
  folded into F, the events 1, 2 and 3 are returned, and the first and the third overlap.
\<close>

theorem zero_length_counterexample:
  "sorted (map startTime
     [mk_event 1 ''M'' (at_time 10 0) (at_time 11 0) [],
      mk_event 2 ''Z'' (at_time 10 0) (at_time 10 0) [],
      mk_event 3 ''F'' (at_time 10 30) (at_time 12 0) []]) \<and>
   mergeSweep
     [mk_event 1 ''M'' (at_time 10 0) (at_time 11 0) [],
      mk_event 2 ''Z'' (at_time 10 0) (at_time 10 0) [],
      mk_event 3 ''F'' (at_time 10 30) (at_time 12 0) []] =
     [mk_event 1 ''M'' (at_time 10 0) (at_time 11 0) [],
      mk_event 2 ''Z'' (at_time 10 0) (at_time 10 0) [],
      mk_event 3 ''F'' (at_time 10 30) (at_time 12 0) []] \<and>
   isOverlapping (mk_event 1 ''M'' (at_time 10 0) (at_time 11 0) [])
                 (mk_event 3 ''F'' (at_time 10 30) (at_time 12 0) []) \<and>
   map_sum id (map id_ev) (fst (mergeAllOverlappingEvents overlap_store 1)) = Inr [1, 2, 3] \<and>
   map_sum id (\<lambda>out. isOverlapping (out ! 0) (out ! 2))
     (fst (mergeAllOverlappingEvents overlap_store 1)) = Inr True"
  by code_simp

text \<open>
  Claim C4, amended. When the fetched list is ascending by start time and every event in it
  starts strictly before it ends, no two events at different positions of the returned list
  overlap, in either order of the two arguments.
\<close>

theorem outputs_do_not_overlap:
  assumes "sorted (map startTime evs)"
    and "\<forall>e \<in> set evs. startTime e < endTime e"
  shows "\<forall>i j. i < j \<and> j < length (mergeSweep evs) \<longrightarrow>
           \<not> isOverlapping (mergeSweep evs ! i) (mergeSweep evs ! j) \<and>
           \<not> isOverlapping (mergeSweep evs ! j) (mergeSweep evs ! i)"
proof (cases evs)
  case Nil
  then show ?thesis by (simp add: mergeSweep_Nil)
next
  case (Cons e es)
  with assms run_from_separated [of e es]
  have "sorted_wrt (\<lambda>x y. endTime x \<le> startTime y) (mergeSweep evs)"
    by (simp add: mergeSweep_Cons)
  then show ?thesis
    by (auto simp: sorted_wrt_iff_nth_less dest: separated_not_overlapping)
qed

text \<open>10:00--11:00, 10:30--11:30 and 11:30--12:00: two events, which do not overlap.\<close>

theorem outputs_do_not_overlap_witness:
  "sorted (map startTime
     [mk_event 1 ''Meeting 1'' (at_time 10 0) (at_time 11 0) [],
      mk_event 2 ''Meeting 2'' (at_time 10 30) (at_time 11 30) [],
      mk_event 3 ''Meeting 3'' (at_time 11 30) (at_time 12 0) []]) \<and>
   list_all (\<lambda>e. startTime e < endTime e)
     [mk_event 1 ''Meeting 1'' (at_time 10 0) (at_time 11 0) [],
      mk_event 2 ''Meeting 2'' (at_time 10 30) (at_time 11 30) [],
      mk_event 3 ''Meeting 3'' (at_time 11 30) (at_time 12 0) []] \<and>
   length (mergeSweep
     [mk_event 1 ''Meeting 1'' (at_time 10 0) (at_time 11 0) [],
      mk_event 2 ''Meeting 2'' (at_time 10 30) (at_time 11 30) [],
      mk_event 3 ''Meeting 3'' (at_time 11 30) (at_time 12 0) []]) = 2 \<and>
   \<not> isOverlapping
      (mergeSweep
        [mk_event 1 ''Meeting 1'' (at_time 10 0) (at_time 11 0) [],
         mk_event 2 ''Meeting 2'' (at_time 10 30) (at_time 11 30) [],
         mk_event 3 ''Meeting 3'' (at_time 11 30) (at_time 12 0) []] ! 0)
      (mergeSweep
        [mk_event 1 ''Meeting 1'' (at_time 10 0) (at_time 11 0) [],
         mk_event 2 ''Meeting 2'' (at_time 10 30) (at_time 11 30) [],
         mk_event 3 ''Meeting 3'' (at_time 11 30) (at_time 12 0) []] ! 1) \<and>
   \<not> isOverlapping
      (mergeSweep
        [mk_event 1 ''Meeting 1'' (at_time 10 0) (at_time 11 0) [],
         mk_event 2 ''Meeting 2'' (at_time 10 30) (at_time 11 30) [],
         mk_event 3 ''Meeting 3'' (at_time 11 30) (at_time 12 0) []] ! 1)
      (mergeSweep
        [mk_event 1 ''Meeting 1'' (at_time 10 0) (at_time 11 0) [],
         mk_event 2 ''Meeting 2'' (at_time 10 30) (at_time 11 30) [],
         mk_event 3 ''Meeting 3'' (at_time 11 30) (at_time 12 0) []] ! 0)"
proof -
  let ?evs = "[mk_event 1 ''Meeting 1'' (at_time 10 0) (at_time 11 0) [],
      mk_event 2 ''Meeting 2'' (at_time 10 30) (at_time 11 30) [],
      mk_event 3 ''Meeting 3'' (at_time 11 30) (at_time 12 0) []]"
  have srt: "sorted (map startTime ?evs)"
    by (simp add: mk_event_def at_time_def)
  have pos: "\<forall>e \<in> set ?evs. startTime e < endTime e"
    by (simp add: mk_event_def at_time_def)
  then have pos': "list_all (\<lambda>e. startTime e < endTime e) ?evs"
    by (simp only: list_all_iff)
  have len: "length (mergeSweep ?evs) = 2"
    by code_simp
  then have "(0::nat) < 1 \<and> 1 < length (mergeSweep ?evs)"
    by simp
  with outputs_do_not_overlap [OF srt pos]
  have "\<not> isOverlapping (mergeSweep ?evs ! 0) (mergeSweep ?evs ! 1) \<and>
        \<not> isOverlapping (mergeSweep ?evs ! 1) (mergeSweep ?evs ! 0)"
    by blast
  with srt pos' len show ?thesis
    by blast
qed

text \<open>
  Claim C5. When the fetch for a user returns the three events A 9:00--10:00,
  B 9:30--10:30 and C 10:15--11:00 (each of them then has the user among its invitees),
  the merge returns the single event that folds B and then C into A: it spans
  9:00--11:00, is titled ``A, B, C'' and keeps A's identifier. A and C do not overlap; C is
  absorbed because the accumulator that holds A and B overlaps it.
\<close>

theorem chained_scenario:
  assumes fetched: "fetchEventsForUser s userId = [a, b, c]"
    and a: "startTime a = at_time 9 0" "endTime a = at_time 10 0" "title a = ''A''"
    and b: "startTime b = at_time 9 30" "endTime b = at_time 10 30" "title b = ''B''"
    and c: "startTime c = at_time 10 15" "endTime c = at_time 11 0" "title c = ''C''"
  shows "fst (mergeAllOverlappingEvents s userId) = Inr [mergeEvents (mergeEvents a b) c] \<and>
         startTime (mergeEvents (mergeEvents a b) c) = at_time 9 0 \<and>
         endTime (mergeEvents (mergeEvents a b) c) = at_time 11 0 \<and>
         title (mergeEvents (mergeEvents a b) c) = ''A, B, C'' \<and>
         id_ev (mergeEvents (mergeEvents a b) c) = id_ev a \<and>
         isOverlapping a b \<and> \<not> isOverlapping a c \<and> isOverlapping (mergeEvents a b) c \<and>
         is_invited s userId (id_ev a) \<and> is_invited s userId (id_ev b) \<and>
         is_invited s userId (id_ev c)"
proof -
  have ab: "isOverlapping a b" and ac: "\<not> isOverlapping a c"
    and abc: "isOverlapping (mergeEvents a b) c"
    by (simp_all add: isOverlapping_def mergeEvents_simps a b c at_time_def)
  then have sweep: "mergeSweep [a, b, c] = [mergeEvents (mergeEvents a b) c]"
    by (simp add: mergeSweep_def)
  from distinct_ids_fetch [of s userId] have "id_ev b \<noteq> id_ev a \<and> id_ev c \<noteq> id_ev a"
    by (auto simp: fetched)
  then have "eventsToDelete [a, b, c] [mergeEvents (mergeEvents a b) c] = [id_ev b, id_ev c]"
    by (simp add: eventsToDelete_def mergeEvents_simps)
  then have res: "fst (mergeAllOverlappingEvents s userId) = Inr [mergeEvents (mergeEvents a b) c]"
    by (simp add: mergeAll_unfold fetched sweep deleteByIds_def)
  have fields: "startTime (mergeEvents (mergeEvents a b) c) = at_time 9 0"
    "endTime (mergeEvents (mergeEvents a b) c) = at_time 11 0"
    "title (mergeEvents (mergeEvents a b) c) = ''A, B, C''"
    "id_ev (mergeEvents (mergeEvents a b) c) = id_ev a"
    by (simp_all add: mergeEvents_simps a b c at_time_def)
  have inv: "is_invited s userId (id_ev a)" "is_invited s userId (id_ev b)"
    "is_invited s userId (id_ev c)"
    by (rule fetched_invited, simp add: fetched)+
  from res fields ab ac abc inv show ?thesis
    by blast
qed

text \<open>The example store asked for Ann, whose three events are stored out of order.\<close>

theorem chained_scenario_witness:
  "fetchEventsForUser demo_store 1 =
     [mk_event 1 ''A'' (at_time 9 0) (at_time 10 0) [mk_user 0 1 ''Ann''],
      mk_event 2 ''B'' (at_time 9 30) (at_time 10 30) [mk_user 1 1 ''Ann''],
      mk_event 3 ''C'' (at_time 10 15) (at_time 11 0) [mk_user 2 1 ''Ann'']] \<and>
   fst (mergeAllOverlappingEvents demo_store 1) =
     Inr [\<lparr> id_ev = 1, title = ''A, B, C'', description = Some ''  '',
            startTime = at_time 9 0, endTime = at_time 11 0, status = IN_PROGRESS,
            invitees = [mk_user 0 1 ''Ann'', mk_user 1 1 ''Ann'', mk_user 2 1 ''Ann''] \<rparr>]"
proof -
  let ?a = "mk_event 1 ''A'' (at_time 9 0) (at_time 10 0) [mk_user 0 1 ''Ann'']"
  let ?b = "mk_event 2 ''B'' (at_time 9 30) (at_time 10 30) [mk_user 1 1 ''Ann'']"
  let ?c = "mk_event 3 ''C'' (at_time 10 15) (at_time 11 0) [mk_user 2 1 ''Ann'']"
  have fetched: "fetchEventsForUser demo_store 1 = [?a, ?b, ?c]"
    by code_simp
  have "fst (mergeAllOverlappingEvents demo_store 1) = Inr [mergeEvents (mergeEvents ?a ?b) ?c]"
    using chained_scenario [OF fetched] by (simp add: mk_event_def)
  moreover have "mergeEvents (mergeEvents ?a ?b) ?c =
     \<lparr> id_ev = 1, title = ''A, B, C'', description = Some ''  '',
        startTime = at_time 9 0, endTime = at_time 11 0, status = IN_PROGRESS,
        invitees = [mk_user 0 1 ''Ann'', mk_user 1 1 ''Ann'', mk_user 2 1 ''Ann''] \<rparr>"
    by code_simp
  ultimately show ?thesis
    using fetched by (simp only:)
qed

text \<open>
  Claim C6, at an input where the code departs from it. In the example store D
  13:00--14:00 invites Bob and Cy and overlaps nothing. Asked for Bob, the merge returns
  the merged event 1 and D, and the rows 2 and 3 are deleted; but D was fetched with Bob
  as its only invitee and is saved that way, so the stored D has lost Cy: the singleton is
  changed. Asked for Cy, whose events D and E are both singletons, the list handed to the
  delete is empty, the call ends in the repository's error, and the store keeps the save:
  D has lost Bob.
\<close>

theorem singleton_invitees_lost:
  "map_sum id (map (\<lambda>u. user_id (obj_user u)) \<circ> invitees) (findOne demo_store 4) = Inr [2, 3] \<and>
   map_sum id (map id_ev) (fst (mergeAllOverlappingEvents demo_store 2)) = Inr [1, 4] \<and>
   map fst (event_table (snd (mergeAllOverlappingEvents demo_store 2))) = [4, 1, 5, 6] \<and>
   map_sum id (map (\<lambda>u. user_id (obj_user u)) \<circ> invitees)
     (findOne (snd (mergeAllOverlappingEvents demo_store 2)) 4) = Inr [2] \<and>
   map id_ev (fetchEventsForUser demo_store 3) = [5, 4] \<and>
   map id_ev (mergeSweep (fetchEventsForUser demo_store 3)) = [5, 4] \<and>
   fst (mergeAllOverlappingEvents demo_store 3) = Inl EmptyCriteria \<and>
   map_sum id (map (\<lambda>u. user_id (obj_user u)) \<circ> invitees)
     (findOne (snd (mergeAllOverlappingEvents demo_store 3)) 4) = Inr [3]"
  by code_simp

text \<open>
  Claim C7, at an input where the code departs from it. Dee is invited to nothing, so the
  fetch is empty; the loop emits nothing, the save of the empty list changes nothing, and
  the delete is called with the empty list, which the repository rejects: the call ends
  in that error instead of returning the empty list. The store is as before.
\<close>

theorem no_events_raises:
  "fetchEventsForUser demo_store 4 = [] \<and>
   mergeAllOverlappingEvents demo_store 4 = (Inl EmptyCriteria, demo_store)"
  by code_simp

text \<open>
  Claim C8, at an input where the code departs from it. In the example store A, B and C
  invite Ann and Bob. Asked for Ann, each of the three is fetched with an object of its
  own that holds Ann and nothing of Bob; the set of the merge compares the objects by
  reference, so the merged event lists Ann three times, and Bob not at all.
\<close>

theorem merged_invitees_repeat:
  "map_sum id (map (\<lambda>u. user_id (obj_user u)) \<circ> invitees) (findOne demo_store 1) = Inr [1, 2] \<and>
   map_sum id (map (\<lambda>u. user_id (obj_user u)) \<circ> invitees) (findOne demo_store 2) = Inr [1, 2] \<and>
   map_sum id (map (\<lambda>u. user_id (obj_user u)) \<circ> invitees) (findOne demo_store 3) = Inr [2, 1] \<and>
   map (map (\<lambda>u. user_id (obj_user u)) \<circ> invitees) (fetchEventsForUser demo_store 1) =
     [[1], [1], [1]] \<and>
   map_sum id (map (map (\<lambda>u. user_id (obj_user u)) \<circ> invitees))
     (fst (mergeAllOverlappingEvents demo_store 1)) = Inr [[1, 1, 1]] \<and>
   map_sum id (map (map obj_ref \<circ> invitees))
     (fst (mergeAllOverlappingEvents demo_store 1)) = Inr [[0, 1, 2]]"
  by code_simp

text \<open>
  Claim C9. For an identifier that no row of the event table carries, \<open>findOne\<close> fails with
  the not-found error, whose message names the identifier: for every identifier that a
  number holds exactly the message is ``Event with ID'', the decimal numeral of the
  identifier (reading the numeral gives the identifier back), and ``not found'', and no
  other such identifier has the same message. For an identifier that a row carries,
  \<open>findOne\<close> returns the event of that row, with the identifier and with the invitees that
  the relation loads, and no error.
\<close>

theorem findOne_result:
  "(i \<notin> fst ` set (event_table s) \<longrightarrow>
      findOne s i = Inl (NotFoundException (not_found_message i)) \<and>
      (\<bar>i\<bar> \<le> 9007199254740991 \<longrightarrow>
         not_found_message i = Some (''Event with ID '' @ show_int i @ '' not found'') \<and>
         read_int (show_int i) = i \<and>
         (\<forall>j. \<bar>j\<bar> \<le> 9007199254740991 \<and> not_found_message j = not_found_message i \<longrightarrow> j = i))) \<and>
   (i \<in> fst ` set (event_table s) \<longrightarrow>
      (\<exists>e. findOne s i = Inr e \<and> lookup s i = Some e \<and> id_ev e = i \<and>
           invitees e = load_invitees s i))"
proof (cases "lookup s i")
  case None
  then have absent: "i \<notin> fst ` set (event_table s)"
    by (simp add: lookup_None)
  have "findOne s i = Inl (NotFoundException (not_found_message i))"
    by (simp add: findOne_def None)
  moreover have "not_found_message i = Some (''Event with ID '' @ show_int i @ '' not found'')"
    if "\<bar>i\<bar> \<le> 9007199254740991"
    using that by (simp add: not_found_message_def template_number_def)
  moreover have "j = i"
    if "\<bar>i\<bar> \<le> 9007199254740991" "\<bar>j\<bar> \<le> 9007199254740991"
      "not_found_message j = not_found_message i" for j
    using that by (rule not_found_message_inject)
  ultimately show ?thesis
    using absent read_show_int [of i] by blast
next
  case (Some e)
  from lookup_Some [OF Some] have "id_ev e = i" "invitees e = load_invitees s i"
    "i \<in> fst ` set (event_table s)"
    by simp_all
  moreover have "findOne s i = Inr e"
    by (simp add: findOne_def Some)
  ultimately show ?thesis
    using Some by blast
qed

text \<open>The example store, looked up at 7 and at 4.\<close>

theorem findOne_result_witness:
  "7 \<notin> fst ` set (event_table demo_store) \<and> \<bar>7 :: int\<bar> \<le> 9007199254740991 \<and>
   findOne demo_store 7 = Inl (NotFoundException (Some ''Event with ID 7 not found'')) \<and>
   read_int ''7'' = 7 \<and>
   4 \<in> fst ` set (event_table demo_store) \<and>
   findOne demo_store 4 =
     Inr (mk_event 4 ''D'' (at_time 13 0) (at_time 14 0) [mk_user 0 2 ''Bob'', mk_user 1 3 ''Cy''])"
proof -
  have absent: "7 \<notin> fst ` set (event_table demo_store)"
    and present: "4 \<in> fst ` set (event_table demo_store)"
    by (simp_all add: demo_store_def)
  have small: "\<bar>7 :: int\<bar> \<le> 9007199254740991"
    by simp
  have seven: "show_int 7 = ''7''"
    by code_simp
  from findOne_result [of 7 demo_store] absent small
  have "findOne demo_store 7 = Inl (NotFoundException (not_found_message 7))"
    and "not_found_message 7 = Some (''Event with ID '' @ show_int 7 @ '' not found'')"
    and "read_int (show_int 7) = 7"
    by blast+
  then have a: "findOne demo_store 7 = Inl (NotFoundException (Some ''Event with ID 7 not found''))"
    and r: "read_int ''7'' = 7"
    by (simp_all add: seven)
  from findOne_result [of 4 demo_store] present
  obtain e where "findOne demo_store 4 = Inr e" "lookup demo_store 4 = Some e"
    by blast
  moreover have "lookup demo_store 4 =
      Some (mk_event 4 ''D'' (at_time 13 0) (at_time 14 0) [mk_user 0 2 ''Bob'', mk_user 1 3 ''Cy''])"
    by code_simp
  ultimately have b: "findOne demo_store 4 =
      Inr (mk_event 4 ''D'' (at_time 13 0) (at_time 14 0) [mk_user 0 2 ''Bob'', mk_user 1 3 ''Cy''])"
    by simp
  from absent small a r present b show ?thesis
    by blast
qed




end
